theory Spec2Isabelle
  imports Complex_Main
begin

section \<open>The canvas and its 2D rendering context\<close>

text \<open>
  The program is the class \<open>DrawingApp\<close> of \<open>app.js\<close>. It paints on one canvas element through
  the browser's 2D rendering context. The context is not code of the program; it is modelled
  here by the calls the program makes on it.

  Coordinates are JavaScript numbers and are modelled as \<open>real\<close>: the rounding of floating
  point subtraction and of \<open>Math.sqrt\<close> is not part of the model.

  The content of the canvas is the list of paint operations that produced it, oldest first,
  over a transparent bitmap. Two canvases with the same list show the same pixels; nothing
  is assumed about the pixels of two different lists.
\<close>

type_synonym colour = string

datatype cap = Butt | Round

datatype seg =
    MoveTo real real
  | LineTo real real
  | Arc real real real real real
  | ClosePath

record pen =
  penColour :: colour
  penWidth :: int
  penCap :: cap

datatype paint =
    FillAll colour
  | Stroked pen "seg list"
  | StrokedRect pen real real real real
  | Drawn "paint list"

type_synonym bitmap = "paint list"

text \<open>A snapshot is the data URL  \<open>canvas.toDataURL()\<close> returns: a lossless encoding of the bitmap.\<close>

type_synonym snapshot = bitmap

record context2d =
  pixels :: bitmap
  fillStyle :: colour
  strokeStyle :: colour
  ctxLineWidth :: int
  lineCap :: cap
  path :: "seg list"

datatype error = TypeError | IndexSizeError

text \<open>A canvas as the browser creates it: transparent, with the context's default settings.\<close>

definition fresh_context :: context2d where
  "fresh_context =
     \<lparr>pixels = [], fillStyle = ''#000000'', strokeStyle = ''#000000'',
      ctxLineWidth = 1, lineCap = Butt, path = []\<rparr>"

text \<open>
  \<open>ctx.fillRect(0, 0, canvas.width, canvas.height)\<close>: the whole canvas is filled. The only
  fill colour the program sets is the opaque \<open>white\<close>, so nothing painted before stays visible.
\<close>

definition fillRect_canvas :: "context2d \<Rightarrow> context2d" where
  "fillRect_canvas c = c\<lparr>pixels := [FillAll (fillStyle c)]\<rparr>"

text \<open>\<open>ctx.clearRect(0, 0, canvas.width, canvas.height)\<close>: the whole canvas becomes transparent.\<close>

definition clearRect_canvas :: "context2d \<Rightarrow> context2d" where
  "clearRect_canvas c = c\<lparr>pixels := []\<rparr>"

text \<open>
  \<open>ctx.drawImage(img, 0, 0)\<close> for an image decoded from a snapshot of this canvas: on a
  transparent canvas the result is the image itself.
\<close>

definition drawImage :: "snapshot \<Rightarrow> context2d \<Rightarrow> context2d" where
  "drawImage img c =
     c\<lparr>pixels := (if pixels c = [] then img else pixels c @ [Drawn img])\<rparr>"

definition toDataURL :: "context2d \<Rightarrow> snapshot" where
  "toDataURL c = pixels c"

definition beginPath :: "context2d \<Rightarrow> context2d" where
  "beginPath c = c\<lparr>path := []\<rparr>"

definition moveTo :: "real \<Rightarrow> real \<Rightarrow> context2d \<Rightarrow> context2d" where
  "moveTo x y c = c\<lparr>path := path c @ [MoveTo x y]\<rparr>"

text \<open>On an empty path \<open>lineTo\<close> only starts a subpath at the point.\<close>

definition lineTo :: "real \<Rightarrow> real \<Rightarrow> context2d \<Rightarrow> context2d" where
  "lineTo x y c =
     c\<lparr>path := (if path c = [] then [MoveTo x y] else path c @ [LineTo x y])\<rparr>"

text \<open>On an empty path \<open>closePath\<close> does nothing.\<close>

definition closePath :: "context2d \<Rightarrow> context2d" where
  "closePath c = c\<lparr>path := (if path c = [] then [] else path c @ [ClosePath])\<rparr>"

text \<open>\<open>ctx.arc\<close> throws an \<open>IndexSizeError\<close> for a negative radius.\<close>

definition arc ::
  "real \<Rightarrow> real \<Rightarrow> real \<Rightarrow> real \<Rightarrow> real \<Rightarrow> context2d \<Rightarrow> error + context2d" where
  "arc x y r a0 a1 c =
     (if r < 0 then Inl IndexSizeError else Inr (c\<lparr>path := path c @ [Arc x y r a0 a1]\<rparr>))"

definition current_pen :: "context2d \<Rightarrow> pen" where
  "current_pen c = \<lparr>penColour = strokeStyle c, penWidth = ctxLineWidth c, penCap = lineCap c\<rparr>"

text \<open>\<open>ctx.stroke()\<close> paints the outline of the whole current path; nothing is filled.\<close>

definition stroke :: "context2d \<Rightarrow> context2d" where
  "stroke c = c\<lparr>pixels := pixels c @ [Stroked (current_pen c) (path c)]\<rparr>"

text \<open>\<open>ctx.strokeRect\<close> paints the outline of a rectangle and leaves the current path alone.\<close>

definition strokeRect :: "real \<Rightarrow> real \<Rightarrow> real \<Rightarrow> real \<Rightarrow> context2d \<Rightarrow> context2d" where
  "strokeRect x y w h c = c\<lparr>pixels := pixels c @ [StrokedRect (current_pen c) x y w h]\<rparr>"

text \<open>Assigning zero or a negative number to \<open>ctx.lineWidth\<close> is ignored by the context.\<close>

definition set_lineWidth :: "int \<Rightarrow> context2d \<Rightarrow> context2d" where
  "set_lineWidth w c = (if 0 < w then c\<lparr>ctxLineWidth := w\<rparr> else c)"


section \<open>The application state\<close>

datatype tool = Pencil | Eraser | Rectangle | Square | Circle

text \<open>
  The fields of \<open>DrawingApp\<close>. \<open>history\<close> and \<open>redoStack\<close> are JavaScript arrays used as
  stacks: \<open>push\<close> appends at the end and \<open>pop\<close> removes the last element, so the top of a
  stack is the last element of the list.

  \<open>loading\<close> is not a field of the class. It holds the images that were given a source by
  \<open>img.src = ...\<close> and whose \<open>onload\<close> handler has not run yet, in the order in which they
  were created. The browser runs such a handler as a task of its own, never inside the
  handler that assigned the source.
\<close>

record app =
  ctx :: context2d
  isDrawing :: bool
  currentTool :: tool
  color :: colour
  lineWidth :: int
  startPoint :: "(real \<times> real) option"
  history :: "snapshot list"
  redoStack :: "snapshot list"
  loading :: "snapshot list"

definition saveCanvasState :: "app \<Rightarrow> app" where
  "saveCanvasState s =
     (let currentState = toDataURL (ctx s);
          s1 = s\<lparr>history := history s @ [currentState]\<rparr>
      in s1\<lparr>redoStack := []\<rparr>)"

definition initCanvas :: "app \<Rightarrow> app" where
  "initCanvas s =
     saveCanvasState (s\<lparr>ctx := fillRect_canvas ((ctx s)\<lparr>fillStyle := ''white''\<rparr>)\<rparr>)"

text \<open>The constructor; \<open>bindEvents\<close> is the function \<open>step\<close> below.\<close>

definition new_DrawingApp :: app where
  "new_DrawingApp =
     initCanvas
       \<lparr>ctx = fresh_context, isDrawing = False, currentTool = Pencil, color = ''#000000'',
        lineWidth = 5, startPoint = None, history = [], redoStack = [], loading = []\<rparr>"

text \<open>The body of the three \<open>img.onload\<close> handlers, which are the same.\<close>

definition onload :: "snapshot \<Rightarrow> app \<Rightarrow> app" where
  "onload img s = s\<lparr>ctx := drawImage img (clearRect_canvas (ctx s))\<rparr>"

definition restoreLastState :: "app \<Rightarrow> app" where
  "restoreLastState s =
     (if length (history s) > 0
      then (let lastState = last (history s) in s\<lparr>loading := loading s @ [lastState]\<rparr>)
      else s)"

text \<open>\<open>setTool\<close> also moves the CSS class \<open>active\<close> between the tool buttons, which is not modelled.\<close>

definition setTool :: "tool \<Rightarrow> app \<Rightarrow> app" where
  "setTool t s = s\<lparr>currentTool := t\<rparr>"

text \<open>The arguments \<open>x\<close> and \<open>y\<close> are the pointer position relative to the canvas.\<close>

definition startDrawing :: "real \<Rightarrow> real \<Rightarrow> app \<Rightarrow> app" where
  "startDrawing x y s =
     (let s1 = s\<lparr>isDrawing := True\<rparr>;
          s2 = s1\<lparr>startPoint := Some (x, y)\<rparr>
      in if currentTool s2 = Pencil \<or> currentTool s2 = Eraser
         then s2\<lparr>ctx := moveTo x y (beginPath (ctx s2))\<rparr>
         else s2)"

text \<open>Reading \<open>this.startPoint.x\<close> while \<open>startPoint\<close> is \<open>null\<close> throws a \<open>TypeError\<close>.\<close>

definition drawRectangle :: "real \<Rightarrow> real \<Rightarrow> bool \<Rightarrow> app \<Rightarrow> error + app" where
  "drawRectangle x y isSquare s =
     (let s1 = restoreLastState s;
          s2 = s1\<lparr>ctx := beginPath (ctx s1)\<rparr>
      in case startPoint s2 of
           None \<Rightarrow> Inl TypeError
         | Some (sx, sy) \<Rightarrow>
             if isSquare
             then (let size = min \<bar>x - sx\<bar> \<bar>y - sy\<bar>;
                       dirX = (if x > sx then 1 else - 1);
                       dirY = (if y > sy then 1 else - 1)
                   in Inr (s2\<lparr>ctx := strokeRect sx sy (size * dirX) (size * dirY) (ctx s2)\<rparr>))
             else Inr (s2\<lparr>ctx := strokeRect sx sy (x - sx) (y - sy) (ctx s2)\<rparr>))"

definition drawCircle :: "real \<Rightarrow> real \<Rightarrow> app \<Rightarrow> error + app" where
  "drawCircle x y s =
     (let s1 = restoreLastState s
      in case startPoint s1 of
           None \<Rightarrow> Inl TypeError
         | Some (sx, sy) \<Rightarrow>
             (let radius = sqrt ((x - sx)\<^sup>2 + (y - sy)\<^sup>2)
              in case arc sx sy radius 0 (2 * pi) (beginPath (ctx s1)) of
                   Inl e \<Rightarrow> Inl e
                 | Inr c \<Rightarrow> Inr (s1\<lparr>ctx := stroke c\<rparr>)))"

definition draw :: "real \<Rightarrow> real \<Rightarrow> app \<Rightarrow> error + app" where
  "draw x y s =
     (if \<not> isDrawing s then Inr s
      else
        (let c1 = (ctx s)\<lparr>strokeStyle := (if currentTool s = Eraser then ''white'' else color s)\<rparr>;
             c2 = set_lineWidth (lineWidth s) c1;
             c3 = c2\<lparr>lineCap := Round\<rparr>;
             s1 = s\<lparr>ctx := c3\<rparr>
         in case currentTool s1 of
              Pencil \<Rightarrow> Inr (s1\<lparr>ctx := stroke (lineTo x y (ctx s1))\<rparr>)
            | Eraser \<Rightarrow> Inr (s1\<lparr>ctx := stroke (lineTo x y (ctx s1))\<rparr>)
            | Rectangle \<Rightarrow> drawRectangle x y False s1
            | Square \<Rightarrow> drawRectangle x y True s1
            | Circle \<Rightarrow> drawCircle x y s1))"

definition stopDrawing :: "app \<Rightarrow> app" where
  "stopDrawing s =
     (if isDrawing s
      then (let s1 = s\<lparr>ctx := closePath (ctx s)\<rparr>;
                s2 = s1\<lparr>isDrawing := False\<rparr>;
                s3 = (if currentTool s2 \<in> set [Pencil, Eraser, Rectangle, Square, Circle]
                      then saveCanvasState s2 else s2)
            in s3\<lparr>startPoint := None\<rparr>)
      else s)"

definition undo :: "app \<Rightarrow> app" where
  "undo s =
     (if length (history s) > 1
      then (let currentState = last (history s);
                s1 = s\<lparr>history := butlast (history s)\<rparr>;
                s2 = s1\<lparr>redoStack := redoStack s1 @ [currentState]\<rparr>;
                prevState = last (history s2)
            in s2\<lparr>loading := loading s2 @ [prevState]\<rparr>)
      else s)"

definition redo :: "app \<Rightarrow> app" where
  "redo s =
     (if length (redoStack s) > 0
      then (let nextState = last (redoStack s);
                s1 = s\<lparr>redoStack := butlast (redoStack s)\<rparr>;
                s2 = s1\<lparr>history := history s1 @ [nextState]\<rparr>
            in s2\<lparr>loading := loading s2 @ [nextState]\<rparr>)
      else s)"

definition clearCanvas :: "app \<Rightarrow> app" where
  "clearCanvas s =
     saveCanvasState (s\<lparr>ctx := fillRect_canvas ((ctx s)\<lparr>fillStyle := ''white''\<rparr>)\<rparr>)"

text \<open>\<open>downloadCanvas\<close> reads the canvas and clicks a link; the application state stays as it is.\<close>

definition downloadCanvas :: "app \<Rightarrow> app" where
  "downloadCanvas s = s"


section \<open>Events\<close>

text \<open>
  The events \<open>bindEvents\<close> subscribes to, and \<open>ImageLoad i\<close>: the \<open>load\<close> event of the image
  at position \<open>i\<close> of \<open>loading\<close>. The order in which several loading images finish is the
  browser's; an index outside the list is an event that cannot happen and changes nothing.
\<close>

datatype event =
    ToolClick tool
  | ColorChange colour  \<comment> \<open>the value of the colour picker, a valid colour\<close>
  | WidthChange int  \<comment> \<open>\<open>parseInt\<close> of the value of the width control\<close>
  | UndoClick
  | RedoClick
  | ClearClick
  | DownloadClick
  | MouseDown real real
  | MouseMove real real
  | MouseUp
  | MouseOut
  | ImageLoad nat

definition imageLoad :: "nat \<Rightarrow> app \<Rightarrow> app" where
  "imageLoad i s =
     (if i < length (loading s)
      then onload (loading s ! i) (s\<lparr>loading := take i (loading s) @ drop (Suc i) (loading s)\<rparr>)
      else s)"

fun step :: "event \<Rightarrow> app \<Rightarrow> error + app" where
  "step (ToolClick t) s = Inr (setTool t s)"
| "step (ColorChange c) s = Inr (s\<lparr>color := c\<rparr>)"
| "step (WidthChange w) s = Inr (s\<lparr>lineWidth := w\<rparr>)"
| "step UndoClick s = Inr (undo s)"
| "step RedoClick s = Inr (redo s)"
| "step ClearClick s = Inr (clearCanvas s)"
| "step DownloadClick s = Inr (downloadCanvas s)"
| "step (MouseDown x y) s = Inr (startDrawing x y s)"
| "step (MouseMove x y) s = draw x y s"
| "step MouseUp s = Inr (stopDrawing s)"
| "step MouseOut s = Inr (stopDrawing s)"
| "step (ImageLoad i) s = Inr (imageLoad i s)"

text \<open>A run handles the events in order and ends at the first uncaught exception.\<close>

fun run :: "event list \<Rightarrow> app \<Rightarrow> error + app" where
  "run [] s = Inr s"
| "run (e # es) s = (case step e s of Inl err \<Rightarrow> Inl err | Inr s' \<Rightarrow> run es s')"

text \<open>All loading images finish, in the order in which they were created.\<close>

definition flush :: "app \<Rightarrow> app" where
  "flush s = fold onload (loading s) (s\<lparr>loading := []\<rparr>)"

text \<open>The white canvas \<open>initCanvas\<close> paints, and the canvas an application shows.\<close>

definition blank :: snapshot where
  "blank = [FillAll ''white'']"

definition surface :: "app \<Rightarrow> bitmap" where
  "surface s = pixels (ctx s)"


section \<open>Notions used by the properties\<close>

text \<open>A gesture in progress has its anchor.\<close>

definition anchored :: "app \<Rightarrow> bool" where
  "anchored s \<longleftrightarrow> (isDrawing s \<longrightarrow> startPoint s \<noteq> None)"

text \<open>The oldest entry of \<open>history\<close> is the white canvas.\<close>

definition seeded :: "app \<Rightarrow> bool" where
  "seeded s \<longleftrightarrow> history s \<noteq> [] \<and> hd (history s) = blank"

text \<open>
  The number of completed gestures and clears in a sequence of events. A gesture is
  completed by a pointer-up or pointer-leave that follows a pointer-down; the flag tells
  whether a gesture is open before the first event.
\<close>

fun completed :: "bool \<Rightarrow> event list \<Rightarrow> nat" where
  "completed active [] = 0"
| "completed active (MouseDown x y # es) = completed True es"
| "completed active (MouseUp # es) = (if active then 1 else 0) + completed False es"
| "completed active (MouseOut # es) = (if active then 1 else 0) + completed False es"
| "completed active (ClearClick # es) = 1 + completed active es"
| "completed active (e # es) = completed active es"

text \<open>
  Once the loading images have finished, in the order in which they were created, the canvas
  shows the snapshot on top of \<open>history\<close>.
\<close>

definition settled :: "app \<Rightarrow> bool" where
  "settled s \<longleftrightarrow> surface (flush s) = last (history s)"

text \<open>Concrete sessions, all starting from a newly constructed application.\<close>

definition black5 :: pen where
  "black5 = \<lparr>penColour = ''#000000'', penWidth = 5, penCap = Round\<rparr>"

definition ex_stroke :: "event list" where
  "ex_stroke = [MouseDown 0 0, MouseMove 10 10, MouseUp]"

definition ex_drawn :: app where
  "ex_drawn = projr (run ex_stroke new_DrawingApp)"

definition ex_undone :: app where
  "ex_undone = projr (run (ex_stroke @ [UndoClick, ImageLoad 0]) new_DrawingApp)"

definition ex_redo_mid_gesture :: app where
  "ex_redo_mid_gesture =
     projr (run (ex_stroke @ [UndoClick, ImageLoad 0, MouseDown 0 0, MouseMove 5 5])
              new_DrawingApp)"

definition ex_undo_mid_gesture :: app where
  "ex_undo_mid_gesture =
     projr (run (ex_stroke @ [MouseDown 20 20, MouseMove 30 30]) new_DrawingApp)"

definition ex_second_gesture :: app where
  "ex_second_gesture = projr (run (ex_stroke @ [UndoClick, MouseDown 1 1]) new_DrawingApp)"

definition ex_loads_out_of_order :: app where
  "ex_loads_out_of_order =
     projr (run (ex_stroke @ [ClearClick, UndoClick, UndoClick, ImageLoad 1, ImageLoad 0])
              new_DrawingApp)"

definition ex_square_begun :: app where
  "ex_square_begun = projr (run [ToolClick Square, MouseDown 0 0] new_DrawingApp)"

definition ex_circle_begun :: app where
  "ex_circle_begun = projr (run [ToolClick Circle, MouseDown 50 50] new_DrawingApp)"


section \<open>Basic facts\<close>

lemmas ctx_defs = fresh_context_def fillRect_canvas_def clearRect_canvas_def drawImage_def
  toDataURL_def beginPath_def moveTo_def lineTo_def closePath_def arc_def current_pen_def
  stroke_def strokeRect_def set_lineWidth_def

lemmas app_defs = saveCanvasState_def initCanvas_def new_DrawingApp_def onload_def
  restoreLastState_def setTool_def startDrawing_def drawRectangle_def drawCircle_def draw_def
  stopDrawing_def undo_def redo_def clearCanvas_def downloadCanvas_def imageLoad_def
  surface_def blank_def

lemmas ex_defs = black5_def ex_stroke_def ex_drawn_def ex_undone_def ex_redo_mid_gesture_def
  ex_undo_mid_gesture_def ex_second_gesture_def ex_square_begun_def ex_circle_begun_def

lemma new_anchored: "anchored new_DrawingApp"
  by (simp add: anchored_def app_defs Let_def)

lemma new_seeded: "seeded new_DrawingApp"
  by (simp add: seeded_def app_defs ctx_defs Let_def)

lemma stopDrawing_eq:
  "stopDrawing s =
     (if isDrawing s
      then (saveCanvasState (s\<lparr>ctx := closePath (ctx s), isDrawing := False\<rparr>))\<lparr>startPoint := None\<rparr>
      else s)"
  by (cases "currentTool s") (simp_all add: stopDrawing_def Let_def saveCanvasState_def)

lemma undo_fixed: "length (history s) \<le> 1 \<Longrightarrow> undo s = s"
  by (simp add: undo_def)

lemma undo_effect:
  "1 < length (history s) \<Longrightarrow>
     undo s = s\<lparr>history := butlast (history s),
               redoStack := redoStack s @ [last (history s)],
               loading := loading s @ [last (butlast (history s))]\<rparr>"
  by (simp add: undo_def Let_def)

lemma redo_effect:
  "redoStack s \<noteq> [] \<Longrightarrow>
     redo s = s\<lparr>redoStack := butlast (redoStack s),
               history := history s @ [last (redoStack s)],
               loading := loading s @ [last (redoStack s)]\<rparr>"
  by (simp add: redo_def Let_def)

lemma history_undo:
  "history (undo s) = (if 1 < length (history s) then butlast (history s) else history s)"
  by (simp add: undo_def Let_def)


subsection \<open>Finished image loads\<close>

lemma surface_onload: "surface (onload img s) = img"
  by (simp add: onload_def surface_def drawImage_def clearRect_canvas_def)

lemma surface_fold_onload:
  "surface (fold onload imgs s) = (if imgs = [] then surface s else last imgs)"
  by (induction imgs arbitrary: s) (auto simp: surface_onload)

lemma surface_loading_update: "surface (s\<lparr>loading := l\<rparr>) = surface s"
  by (simp add: surface_def)

lemma surface_flush:
  "surface (flush s) = (if loading s = [] then surface s else last (loading s))"
  by (simp add: flush_def surface_fold_onload surface_loading_update)

text \<open>\<open>flush\<close> is what the load events of all loading images do, oldest image first.\<close>

lemma flush_as_events:
  "run (replicate (length (loading s)) (ImageLoad 0)) s = Inr (flush s)"
proof (induction "loading s" arbitrary: s)
  case Nil
  then show ?case by (simp add: flush_def)
next
  case (Cons img rest)
  let ?s1 = "onload img (s\<lparr>loading := rest\<rparr>)"
  from Cons.hyps(2) have l: "loading s = img # rest" by simp
  have r: "rest = loading ?s1" by (simp add: onload_def)
  have c: "(onload img (s\<lparr>loading := rest\<rparr>))\<lparr>loading := []\<rparr> = onload img (s\<lparr>loading := []\<rparr>)"
    by (simp add: onload_def)
  have "flush ?s1 = fold onload rest (onload img (s\<lparr>loading := []\<rparr>))"
    unfolding flush_def r [symmetric] c ..
  also have "\<dots> = flush s"
    by (simp add: flush_def l)
  finally have "flush ?s1 = flush s" .
  with Cons.hyps(1) [OF r] show ?case
    by (simp add: l imageLoad_def) (simp add: onload_def)
qed


subsection \<open>Invariants of a session\<close>

lemma draw_anchored:
  assumes "anchored s"
  shows "\<exists>s'. draw x y s = Inr s' \<and> anchored s' \<and> isDrawing s' = isDrawing s
            \<and> history s' = history s \<and> redoStack s' = redoStack s \<and> currentTool s' = currentTool s"
proof (cases "isDrawing s")
  case False
  then show ?thesis using assms by (simp add: draw_def)
next
  case True
  with assms obtain ax ay where a: "startPoint s = Some (ax, ay)"
    by (auto simp: anchored_def)
  show ?thesis
    using True a
    by (cases "currentTool s")
      (simp_all add: draw_def drawRectangle_def drawCircle_def restoreLastState_def arc_def
        anchored_def Let_def not_less)
qed

lemma step_anchored:
  assumes "anchored s"
  shows "\<exists>s'. step e s = Inr s' \<and> anchored s'"
proof (cases e)
  case (MouseMove x y)
  then show ?thesis using draw_anchored [OF assms, of x y] by auto
qed (use assms in \<open>auto simp: anchored_def setTool_def undo_def redo_def clearCanvas_def
      saveCanvasState_def downloadCanvas_def startDrawing_def stopDrawing_def imageLoad_def
      onload_def Let_def\<close>)

lemma run_anchored: "anchored s \<Longrightarrow> \<exists>s'. run es s = Inr s' \<and> anchored s'"
proof (induction es arbitrary: s)
  case Nil
  then show ?case by simp
next
  case (Cons e es)
  from step_anchored [OF Cons.prems, of e] obtain s1 where
    s1: "step e s = Inr s1" "anchored s1" by blast
  from Cons.IH [OF s1(2)] s1(1) show ?case by simp
qed

lemma hd_butlast: "1 < length xs \<Longrightarrow> hd (butlast xs) = hd xs"
  by (cases xs) auto

lemma step_seeded:
  assumes "seeded s" and "step e s = Inr s'"
  shows "seeded s'"
proof (cases e)
  case (MouseMove x y)
  show ?thesis
  proof (cases "isDrawing s")
    case False
    then show ?thesis using assms MouseMove by (simp add: draw_def)
  next
    case True
    then show ?thesis
      using assms MouseMove
      by (cases "currentTool s")
        (auto simp: seeded_def draw_def drawRectangle_def drawCircle_def restoreLastState_def
          arc_def Let_def split: option.splits if_splits)
  qed
next
  case UndoClick
  then show ?thesis
    using assms
    by (cases "history s")
      (auto simp: seeded_def undo_def Let_def hd_butlast split: if_splits)
qed (use assms in \<open>auto simp: seeded_def setTool_def redo_def clearCanvas_def
      saveCanvasState_def downloadCanvas_def startDrawing_def stopDrawing_def imageLoad_def
      onload_def Let_def split: if_splits\<close>)

lemma run_seeded: "seeded s \<Longrightarrow> run es s = Inr s' \<Longrightarrow> seeded s'"
proof (induction es arbitrary: s)
  case Nil
  then show ?case by simp
next
  case (Cons e es)
  then show ?case
    by (cases "step e s") (auto dest: step_seeded)
qed


subsection \<open>Repeated undo\<close>

lemma history_undo_pow:
  "history ((undo ^^ k) s) = take (max 1 (length (history s) - k)) (history s)"
proof (induction k)
  case 0
  then show ?case by simp
next
  case (Suc k)
  let ?n = "length (history s)"
  let ?m = "max 1 (?n - k)"
  show ?case
  proof (cases "1 < min ?m ?n")
    case True
    then have e1: "butlast (take ?m (history s)) = take (?m - 1) (history s)"
      by (simp add: butlast_take)
    from True have e2: "?m - 1 = max 1 (?n - Suc k)" by auto
    have "history ((undo ^^ Suc k) s) = butlast (take ?m (history s))"
      using True Suc by (simp add: history_undo)
    also have "\<dots> = take (?m - 1) (history s)" by (rule e1)
    also have "\<dots> = take (max 1 (?n - Suc k)) (history s)" by (simp only: e2)
    finally show ?thesis .
  next
    case False
    then have e3: "take ?m (history s) = take (max 1 (?n - Suc k)) (history s)"
      by (cases "?n \<le> 1") (auto simp: max_def)
    from False Suc have "\<not> 1 < length (history ((undo ^^ k) s))" by auto
    then have "history ((undo ^^ Suc k) s) = history ((undo ^^ k) s)"
      by (simp add: history_undo)
    also have "\<dots> = take ?m (history s)" by (rule Suc)
    also have "\<dots> = take (max 1 (?n - Suc k)) (history s)" by (rule e3)
    finally show ?thesis .
  qed
qed

lemma history_undo_floor:
  assumes "history s \<noteq> []" and "length (history s) - 1 \<le> k"
  shows "history ((undo ^^ k) s) = [hd (history s)]"
proof -
  from assms(2) have "max 1 (length (history s) - k) = 1" by auto
  then show ?thesis using assms(1) by (simp add: history_undo_pow take_Suc)
qed

lemma history_undo_pow_nonempty: "history s \<noteq> [] \<Longrightarrow> history ((undo ^^ k) s) \<noteq> []"
  by (simp add: history_undo_pow)

lemma loading_undo_pow:
  assumes "1 < length (history s)" and "0 < k"
  shows "loading ((undo ^^ k) s) \<noteq> [] \<and>
         last (loading ((undo ^^ k) s)) = last (history ((undo ^^ k) s))"
  using assms(2)
proof (induction k)
  case 0
  then show ?case by simp
next
  case (Suc k)
  let ?t = "(undo ^^ k) s"
  show ?case
  proof (cases "1 < length (history ?t)")
    case True
    then show ?thesis by (simp add: undo_effect)
  next
    case False
    then have fixed: "undo ?t = ?t" by (simp add: undo_fixed)
    from False assms(1) have "0 < k" by (cases k) auto
    with Suc.IH fixed show ?thesis by simp
  qed
qed


subsection \<open>Counting completed gestures\<close>

lemma step_counts:
  assumes "anchored s" and "e \<noteq> UndoClick" and "e \<noteq> RedoClick"
  shows "\<exists>s'. step e s = Inr s' \<and> anchored s' \<and>
           length (history s') + completed (isDrawing s') es =
             length (history s) + completed (isDrawing s) (e # es)"
proof (cases e)
  case (MouseMove x y)
  then show ?thesis using draw_anchored [OF assms(1), of x y] by auto
qed (use assms in \<open>auto simp: anchored_def setTool_def clearCanvas_def
      saveCanvasState_def downloadCanvas_def startDrawing_def stopDrawing_eq imageLoad_def
      onload_def Let_def\<close>)

lemma run_counts:
  assumes "anchored s" and "UndoClick \<notin> set es" and "RedoClick \<notin> set es"
  shows "\<exists>s'. run es s = Inr s' \<and>
           length (history s') = length (history s) + completed (isDrawing s) es"
  using assms
proof (induction es arbitrary: s)
  case Nil
  then show ?case by simp
next
  case (Cons e es)
  from Cons.prems have "e \<noteq> UndoClick" "e \<noteq> RedoClick" by auto
  from step_counts [OF Cons.prems(1) this, of es] obtain s1 where
    s1: "step e s = Inr s1" "anchored s1"
      "length (history s1) + completed (isDrawing s1) es =
         length (history s) + completed (isDrawing s) (e # es)" by blast
  from Cons.IH [OF s1(2)] Cons.prems obtain s' where
    "run es s1 = Inr s'" "length (history s') = length (history s1) + completed (isDrawing s1) es"
    by auto
  with s1 show ?case by simp
qed

lemma gesture_stays_open:
  assumes "isDrawing s" and "completed True es = 0" and "run es s = Inr s'"
  shows "isDrawing s'"
  using assms
proof (induction es arbitrary: s)
  case Nil
  then show ?case by simp
next
  case (Cons e es)
  show ?case
  proof (cases e)
    case (MouseMove x y)
    with Cons.prems obtain s1 where s1: "draw x y s = Inr s1" "run es s1 = Inr s'"
      by (auto split: sum.splits)
    from s1(1) Cons.prems(1) have "isDrawing s1"
      by (cases "currentTool s")
        (auto simp: draw_def drawRectangle_def drawCircle_def restoreLastState_def arc_def
          Let_def split: option.splits if_splits)
    from Cons.IH [OF this _ s1(2)] Cons.prems(2) MouseMove show ?thesis by simp
  next
    case UndoClick
    with Cons.prems Cons.IH [of "undo s"] show ?thesis
      by (auto simp: undo_def Let_def split: if_splits)
  next
    case RedoClick
    with Cons.prems Cons.IH [of "redo s"] show ?thesis
      by (auto simp: redo_def Let_def split: if_splits)
  next
    case (ImageLoad i)
    with Cons.prems Cons.IH [of "imageLoad i s"] show ?thesis
      by (auto simp: imageLoad_def onload_def split: if_splits)
  next
    case (MouseDown x y)
    with Cons.prems Cons.IH [of "startDrawing x y s"] show ?thesis
      by (auto simp: startDrawing_def Let_def split: if_splits)
  next
    case (ToolClick t)
    with Cons.prems Cons.IH [of "setTool t s"] show ?thesis
      by (auto simp: setTool_def)
  next
    case (ColorChange c)
    with Cons.prems Cons.IH [of "s\<lparr>color := c\<rparr>"] show ?thesis by auto
  next
    case (WidthChange w)
    with Cons.prems Cons.IH [of "s\<lparr>lineWidth := w\<rparr>"] show ?thesis by auto
  next
    case DownloadClick
    with Cons.prems Cons.IH [of s] show ?thesis by (auto simp: downloadCanvas_def)
  qed (use Cons.prems in auto)
qed

lemma untouched_without_gesture:
  assumes "\<not> isDrawing s" and "loading s = []" and "completed False es = 0"
    and "UndoClick \<notin> set es" and "RedoClick \<notin> set es"
    and "run es s = Inr s'" and "\<not> isDrawing s'"
  shows "surface s' = surface s \<and> loading s' = []"
  using assms
proof (induction es arbitrary: s)
  case Nil
  then show ?case by simp
next
  case (Cons e es)
  show ?case
  proof (cases e)
    case (MouseDown x y)
    with Cons.prems have "completed True es = 0" "run es (startDrawing x y s) = Inr s'"
      by auto
    moreover have "isDrawing (startDrawing x y s)" by (simp add: startDrawing_def Let_def)
    ultimately have "isDrawing s'" using gesture_stays_open by blast
    with Cons.prems show ?thesis by simp
  next
    case (MouseMove x y)
    with Cons.prems Cons.IH [of s] show ?thesis by (auto simp: draw_def)
  next
    case MouseUp
    with Cons.prems Cons.IH [of s] show ?thesis by (auto simp: stopDrawing_def)
  next
    case MouseOut
    with Cons.prems Cons.IH [of s] show ?thesis by (auto simp: stopDrawing_def)
  next
    case (ImageLoad i)
    with Cons.prems Cons.IH [of s] show ?thesis by (auto simp: imageLoad_def)
  next
    case (ToolClick t)
    with Cons.prems Cons.IH [of "setTool t s"] show ?thesis
      by (auto simp: setTool_def surface_def)
  next
    case (ColorChange c)
    with Cons.prems Cons.IH [of "s\<lparr>color := c\<rparr>"] show ?thesis by (auto simp: surface_def)
  next
    case (WidthChange w)
    with Cons.prems Cons.IH [of "s\<lparr>lineWidth := w\<rparr>"] show ?thesis
      by (auto simp: surface_def)
  next
    case DownloadClick
    with Cons.prems Cons.IH [of s] show ?thesis by (auto simp: downloadCanvas_def)
  qed (use Cons.prems in auto)
qed


subsection \<open>Undo clicks and image loads\<close>

lemma undo_settles: "1 < length (history s) \<Longrightarrow> settled (undo s)"
  by (simp add: settled_def surface_flush undo_effect)

lemma imageLoad_first:
  assumes "loading s = img # rest"
  shows "loading (imageLoad 0 s) = rest" and "surface (imageLoad 0 s) = img"
    and "history (imageLoad 0 s) = history s"
  using assms
  by (simp_all add: imageLoad_def onload_def surface_def drawImage_def clearRect_canvas_def)

lemma imageLoad_settled: "settled s \<Longrightarrow> settled (imageLoad 0 s)"
proof (cases "loading s")
  case Nil
  assume "settled s"
  with Nil show ?thesis by (simp add: imageLoad_def)
next
  case (Cons img rest)
  assume "settled s"
  with Cons imageLoad_first [OF Cons] show ?thesis
    by (auto simp: settled_def surface_flush split: if_splits)
qed

lemma isDrawing_undo: "isDrawing (undo s) = isDrawing s"
  by (simp add: undo_def Let_def)

lemma undo_run_history:
  assumes "set us \<subseteq> {UndoClick, ImageLoad 0}"
  shows "\<exists>s'. run us s = Inr s' \<and>
           history s' = history ((undo ^^ count_list us UndoClick) s) \<and>
           isDrawing s' = isDrawing s"
  using assms
proof (induction us arbitrary: s)
  case Nil
  then show ?case by simp
next
  case (Cons e us)
  from Cons.prems have e: "e = UndoClick \<or> e = ImageLoad 0" and us: "set us \<subseteq> {UndoClick, ImageLoad 0}"
    by auto
  from e show ?case
  proof
    assume u: "e = UndoClick"
    from Cons.IH [OF us, of "undo s"] u show ?thesis
      by (auto simp: funpow_swap1 isDrawing_undo)
  next
    assume l: "e = ImageLoad 0"
    have h: "history (imageLoad 0 s) = history s" "isDrawing (imageLoad 0 s) = isDrawing s"
      by (simp_all add: imageLoad_def onload_def)
    from Cons.IH [OF us, of "imageLoad 0 s"] l show ?thesis
      by (auto simp: history_undo_pow h)
  qed
qed

lemma undo_run_settles:
  assumes "set us \<subseteq> {UndoClick, ImageLoad 0}" and "run us s = Inr s'"
    and "settled s \<or> (1 < length (history s) \<and> 0 < count_list us UndoClick)"
  shows "settled s'"
  using assms
proof (induction us arbitrary: s)
  case Nil
  then show ?case by simp
next
  case (Cons e us)
  from Cons.prems(1) have e: "e = UndoClick \<or> e = ImageLoad 0"
    and us: "set us \<subseteq> {UndoClick, ImageLoad 0}" by auto
  from e show ?case
  proof
    assume u: "e = UndoClick"
    with Cons.prems(2) have r: "run us (undo s) = Inr s'" by simp
    show ?thesis
    proof (cases "1 < length (history s)")
      case True
      from Cons.IH [OF us r] undo_settles [OF True] show ?thesis by simp
    next
      case False
      with Cons.prems(3) have "settled s" by simp
      moreover from False have "undo s = s" by (simp add: undo_fixed)
      ultimately show ?thesis using Cons.IH [OF us r] by simp
    qed
  next
    assume l: "e = ImageLoad 0"
    with Cons.prems(2) have r: "run us (imageLoad 0 s) = Inr s'" by simp
    have h: "history (imageLoad 0 s) = history s"
      by (simp add: imageLoad_def onload_def)
    from Cons.prems(3) l have
      "settled (imageLoad 0 s) \<or>
         (1 < length (history (imageLoad 0 s)) \<and> 0 < count_list us UndoClick)"
      by (auto simp: h imageLoad_settled)
    from Cons.IH [OF us r this] show ?thesis .
  qed
qed


section \<open>The history stack\<close>

text \<open>
  Claim C1. In every state a session can reach, \<open>history\<close> is not empty. \<open>undo\<close> leaves the
  state as it is when \<open>history\<close> holds one entry; otherwise it moves the top of \<open>history\<close>
  onto \<open>redoStack\<close> and starts to load the new top, the snapshot to restore. However often
  \<open>undo\<close> is called, \<open>history\<close> is never emptied: from \<open>length history - 1\<close> calls on it
  holds the white start snapshot alone, further calls change nothing, and once the loads
  have finished the canvas shows that snapshot.
\<close>

theorem undo_floor:
  assumes "run es new_DrawingApp = Inr s"
  shows "history s \<noteq> [] \<and>
         (length (history s) = 1 \<longrightarrow> undo s = s) \<and>
         (1 < length (history s) \<longrightarrow>
            history (undo s) = butlast (history s) \<and>
            redoStack (undo s) = redoStack s @ [last (history s)] \<and>
            loading (undo s) = loading s @ [last (history (undo s))]) \<and>
         (\<forall>k. history ((undo ^^ k) s) \<noteq> []) \<and>
         (\<forall>k. length (history s) - 1 \<le> k \<longrightarrow>
            history ((undo ^^ k) s) = [blank] \<and> undo ((undo ^^ k) s) = (undo ^^ k) s) \<and>
         (\<forall>k. length (history s) - 1 \<le> k \<and> 1 < length (history s) \<longrightarrow>
            surface (flush ((undo ^^ k) s)) = blank)"
proof -
  from run_seeded [OF new_seeded assms] have ne: "history s \<noteq> []" and hd: "hd (history s) = blank"
    by (simp_all add: seeded_def)
  have floor: "history ((undo ^^ k) s) = [blank]" if "length (history s) - 1 \<le> k" for k
    using history_undo_floor [OF ne that] hd by simp
  have "surface (flush ((undo ^^ k) s)) = blank"
    if "length (history s) - 1 \<le> k" and "1 < length (history s)" for k
  proof -
    from that have "0 < k" by simp
    from loading_undo_pow [OF that(2) this] floor [OF that(1)] show ?thesis
      by (simp add: surface_flush)
  qed
  moreover have "undo ((undo ^^ k) s) = (undo ^^ k) s" if "length (history s) - 1 \<le> k" for k
    using floor [OF that] by (simp add: undo_fixed)
  ultimately show ?thesis
    using ne floor by (simp add: undo_fixed undo_effect history_undo_pow_nonempty)
qed

theorem undo_floor_witness:
  "run ex_stroke new_DrawingApp = Inr ex_drawn \<and>
   length (history ex_drawn) = 2 \<and>
   history (undo ex_drawn) = [blank] \<and>
   history ((undo ^^ 7) ex_drawn) = [blank] \<and>
   surface (flush ((undo ^^ 7) ex_drawn)) = blank"
proof -
  have r: "run ex_stroke new_DrawingApp = Inr ex_drawn"
    by (simp add: ex_defs app_defs ctx_defs Let_def)
  have l: "length (history ex_drawn) = 2"
    by (simp add: ex_defs app_defs ctx_defs Let_def)
  have b: "butlast (history ex_drawn) = [blank]"
    by (simp add: ex_defs app_defs ctx_defs Let_def)
  note th = undo_floor [OF r]
  from th l b have "history (undo ex_drawn) = [blank]" by simp
  moreover from th have
    "length (history ex_drawn) - 1 \<le> 7 \<longrightarrow> history ((undo ^^ 7) ex_drawn) = [blank]"
    by blast
  moreover from th have
    "length (history ex_drawn) - 1 \<le> 7 \<and> 1 < length (history ex_drawn) \<longrightarrow>
       surface (flush ((undo ^^ 7) ex_drawn)) = blank"
    by blast
  ultimately show ?thesis using r l by simp
qed

text \<open>
  Claim C2. Whatever \<open>history\<close> and \<open>redoStack\<close> hold, an entry pushed onto \<open>history\<close> outside
  of undo and redo leaves \<open>redoStack\<close> empty: \<open>saveCanvasState\<close> does so, and so do a clear
  and the end of a gesture, the two operations that call it after construction.
\<close>

theorem push_clears_redo:
  "redoStack (saveCanvasState s) = [] \<and>
   history (saveCanvasState s) = history s @ [surface s] \<and>
   redoStack (clearCanvas s) = [] \<and>
   history (clearCanvas s) = history s @ [blank] \<and>
   (isDrawing s \<longrightarrow>
      redoStack (stopDrawing s) = [] \<and> history (stopDrawing s) = history s @ [surface s])"
  by (cases "currentTool s")
    (simp_all add: saveCanvasState_def clearCanvas_def stopDrawing_def surface_def blank_def
      toDataURL_def fillRect_canvas_def closePath_def Let_def)

theorem push_clears_redo_witness:
  "isDrawing ex_second_gesture \<and> redoStack ex_second_gesture \<noteq> [] \<and>
   redoStack (stopDrawing ex_second_gesture) = [] \<and>
   redoStack (clearCanvas ex_second_gesture) = []"
  using push_clears_redo [of ex_second_gesture]
  by (simp add: ex_defs app_defs ctx_defs Let_def)

text \<open>
  Claim C5, as the program has it. After a session of events without undo and redo in which
  \<open>N\<close> gestures were completed or clears made, \<open>history\<close> has \<open>N + 1\<close> entries. \<open>N\<close>
  undo clicks then leave the white start snapshot alone in \<open>history\<close>. When no gesture was
  left open and the images finish loading in the order in which they were created, at any
  moments between and after the clicks, the canvas ends showing that snapshot.
\<close>

theorem history_monotonicity:
  assumes "UndoClick \<notin> set gs" and "RedoClick \<notin> set gs"
    and "set us \<subseteq> {UndoClick, ImageLoad 0}"
    and "count_list us UndoClick = completed False gs"
  shows "\<exists>s s'. run gs new_DrawingApp = Inr s \<and>
           length (history s) = completed False gs + 1 \<and>
           run us s = Inr s' \<and>
           history s' = [blank] \<and>
           (\<not> isDrawing s \<longrightarrow> surface (flush s') = blank)"
proof -
  let ?n = "completed False gs"
  from run_counts [OF new_anchored assms(1,2)] obtain s where
    s: "run gs new_DrawingApp = Inr s" and len: "length (history s) = ?n + 1"
    by (auto simp: app_defs ctx_defs Let_def)
  from run_seeded [OF new_seeded s] have ne: "history s \<noteq> []" and hd: "hd (history s) = blank"
    by (simp_all add: seeded_def)
  from undo_run_history [OF assms(3), of s] assms(4) obtain s' where
    s': "run us s = Inr s'" and h': "history s' = history ((undo ^^ ?n) s)"
    by auto
  from len have "length (history s) - 1 \<le> ?n" by simp
  from history_undo_floor [OF ne this] hd h'
  have floor: "history s' = [blank]" by simp
  have "surface (flush s') = blank" if idle: "\<not> isDrawing s"
  proof -
    have "settled s \<or> (1 < length (history s) \<and> 0 < count_list us UndoClick)"
    proof (cases "?n = 0")
      case True
      have "\<not> isDrawing new_DrawingApp" "loading new_DrawingApp = []"
        by (simp_all add: app_defs Let_def)
      from untouched_without_gesture [OF this True assms(1,2) s idle]
      have "surface s = blank" "loading s = []"
        by (simp_all add: app_defs ctx_defs Let_def)
      moreover from True len ne hd have "last (history s) = blank"
        by (cases "history s") auto
      ultimately show ?thesis by (simp add: settled_def surface_flush)
    next
      case False
      with len assms(4) show ?thesis by simp
    qed
    from undo_run_settles [OF assms(3) s' this] floor show ?thesis
      by (simp add: settled_def)
  qed
  with s len s' floor show ?thesis by blast
qed

theorem history_monotonicity_witness:
  "UndoClick \<notin> set (ex_stroke @ [ClearClick]) \<and> RedoClick \<notin> set (ex_stroke @ [ClearClick]) \<and>
   completed False (ex_stroke @ [ClearClick]) = 2 \<and>
   count_list [UndoClick, ImageLoad 0, UndoClick] UndoClick = 2 \<and>
   length (history (projr (run (ex_stroke @ [ClearClick]) new_DrawingApp))) = 3 \<and>
   surface (flush (projr (run (ex_stroke @ [ClearClick] @ [UndoClick, ImageLoad 0, UndoClick])
      new_DrawingApp))) = blank"
proof -
  let ?gs = "ex_stroke @ [ClearClick]"
  let ?us = "[UndoClick, ImageLoad 0, UndoClick]"
  have c: "completed False ?gs = 2" "count_list ?us UndoClick = 2"
    by (simp_all add: ex_defs)
  have n: "UndoClick \<notin> set ?gs" "RedoClick \<notin> set ?gs"
    by (simp_all add: ex_defs)
  have u: "set ?us \<subseteq> {UndoClick, ImageLoad 0}" by simp
  have r: "run ?gs new_DrawingApp = Inr (projr (run ?gs new_DrawingApp))"
    "\<not> isDrawing (projr (run ?gs new_DrawingApp))"
    "run (?gs @ ?us) new_DrawingApp = 
       (case run ?gs new_DrawingApp of Inl e \<Rightarrow> Inl e | Inr s \<Rightarrow> run ?us s)"
    by (simp_all add: ex_defs app_defs ctx_defs Let_def)
  from history_monotonicity [OF n u] c r show ?thesis
    using n by auto
qed

text \<open>
  The claim as it is written fails when the images finish in another order. After a stroke
  and a clear, two undo clicks start to load the snapshot with the stroke and then the white
  one. When the white image finishes first, \<open>history\<close> holds the white snapshot alone and
  nothing is loading, yet the canvas shows the stroke.
\<close>

theorem undone_surface_needs_ordered_loads:
  "UndoClick \<notin> set (ex_stroke @ [ClearClick]) \<and> RedoClick \<notin> set (ex_stroke @ [ClearClick]) \<and>
   completed False (ex_stroke @ [ClearClick]) = 2 \<and>
   run (ex_stroke @ [ClearClick, UndoClick, UndoClick, ImageLoad 1, ImageLoad 0]) new_DrawingApp =
     Inr ex_loads_out_of_order \<and>
   history ex_loads_out_of_order = [blank] \<and>
   loading ex_loads_out_of_order = [] \<and>
   \<not> isDrawing ex_loads_out_of_order \<and>
   surface ex_loads_out_of_order = blank @ [Stroked black5 [MoveTo 0 0, LineTo 10 10]] \<and>
   surface ex_loads_out_of_order \<noteq> blank"
  by (simp add: ex_loads_out_of_order_def ex_defs app_defs ctx_defs Let_def)

text \<open>
  Claim C4, as the program has it. Let \<open>history\<close> be non-empty, as it is in every state a
  session can reach. When \<open>redoStack\<close> is non-empty, \<open>redo\<close> followed by \<open>undo\<close> leaves
  \<open>history\<close> and \<open>redoStack\<close> as they were, and once the two loads have finished in the
  order in which they were started the canvas shows the snapshot on top of \<open>history\<close>. When
  \<open>history\<close> has more than one entry, the same holds of \<open>undo\<close> followed by \<open>redo\<close>. The
  canvas is therefore as it was before the pair when it showed the top of \<open>history\<close> then.
\<close>

theorem pair_restores_committed_top:
  assumes "history s \<noteq> []"
  shows "(redoStack s \<noteq> [] \<longrightarrow>
           history (undo (redo s)) = history s \<and>
           redoStack (undo (redo s)) = redoStack s \<and>
           surface (flush (undo (redo s))) = last (history s)) \<and>
         (1 < length (history s) \<longrightarrow>
           history (redo (undo s)) = history s \<and>
           redoStack (redo (undo s)) = redoStack s \<and>
           surface (flush (redo (undo s))) = last (history s))"
proof (intro conjI impI)
  assume r: "redoStack s \<noteq> []"
  let ?t = "redo s"
  from r assms have t: "1 < length (history ?t)" by (cases "history s") (simp_all add: redo_effect)
  from r show "history (undo ?t) = history s"
    by (subst undo_effect [OF t]) (simp add: redo_effect)
  from r show "redoStack (undo ?t) = redoStack s"
    by (subst undo_effect [OF t]) (simp add: redo_effect)
  from r show "surface (flush (undo ?t)) = last (history s)"
    by (subst undo_effect [OF t]) (simp add: surface_flush redo_effect)
next
  assume h: "1 < length (history s)"
  let ?t = "undo s"
  have t: "redoStack ?t \<noteq> []" by (simp add: undo_effect [OF h])
  from h have ne: "history s \<noteq> []" by auto
  from ne show "history (redo ?t) = history s"
    by (subst redo_effect [OF t]) (simp add: undo_effect [OF h])
  show "redoStack (redo ?t) = redoStack s"
    by (subst redo_effect [OF t]) (simp add: undo_effect [OF h])
  show "surface (flush (redo ?t)) = last (history s)"
    by (subst redo_effect [OF t]) (simp add: surface_flush undo_effect [OF h])
qed

theorem pair_restores_committed_top_witness:
  "history ex_undone \<noteq> [] \<and> redoStack ex_undone \<noteq> [] \<and>
   history (undo (redo ex_undone)) = history ex_undone \<and>
   redoStack (undo (redo ex_undone)) = redoStack ex_undone \<and>
   surface (flush (undo (redo ex_undone))) = surface ex_undone \<and>
   history ex_drawn \<noteq> [] \<and> 1 < length (history ex_drawn) \<and>
   history (redo (undo ex_drawn)) = history ex_drawn \<and>
   redoStack (redo (undo ex_drawn)) = redoStack ex_drawn \<and>
   surface (flush (redo (undo ex_drawn))) = surface ex_drawn"
  using pair_restores_committed_top [of ex_undone] pair_restores_committed_top [of ex_drawn]
  by (simp add: ex_defs app_defs ctx_defs Let_def)

text \<open>
  The claim as it is written fails while a gesture is open. After a stroke, an undo and its
  load, a second stroke is begun and has painted a segment: \<open>redoStack\<close> is non-empty and no
  image is loading, yet \<open>redo\<close> followed by \<open>undo\<close> replaces the canvas by the white
  snapshot and the segment is gone. In the same way \<open>undo\<close> followed by \<open>redo\<close> removes the
  segment of a second stroke begun right after the first.
\<close>

theorem pair_does_not_restore_uncommitted:
  "redoStack ex_redo_mid_gesture \<noteq> [] \<and> loading ex_redo_mid_gesture = [] \<and>
   surface ex_redo_mid_gesture = blank @ [Stroked black5 [MoveTo 0 0, LineTo 5 5]] \<and>
   surface (flush (undo (redo ex_redo_mid_gesture))) = blank \<and>
   surface (flush (undo (redo ex_redo_mid_gesture))) \<noteq> surface ex_redo_mid_gesture \<and>
   1 < length (history ex_undo_mid_gesture) \<and> loading ex_undo_mid_gesture = [] \<and>
   surface (flush (redo (undo ex_undo_mid_gesture))) \<noteq> surface ex_undo_mid_gesture"
  by (simp add: ex_defs app_defs ctx_defs flush_def Let_def)


section \<open>Shapes\<close>

text \<open>
  Claim C6. For every anchor and pointer position, a move of the square tool strokes a
  rectangle at the anchor whose width and height both have the magnitude
  \<open>min \<bar>dx\<bar> \<bar>dy\<bar>\<close> and the sign of \<open>dx\<close> and of \<open>dy\<close>, where \<open>dx\<close> and \<open>dy\<close> are the
  differences between the pointer and the anchor.
\<close>

theorem square_tool_dimensions:
  assumes "isDrawing s" and "currentTool s = Square" and "startPoint s = Some (ax, ay)"
  shows "\<exists>s'. step (MouseMove x y) s = Inr s' \<and>
           surface s' =
             surface s @
               [StrokedRect
                  \<lparr>penColour = color s,
                   penWidth = (if 0 < lineWidth s then lineWidth s else ctxLineWidth (ctx s)),
                   penCap = Round\<rparr>
                  ax ay
                  (sgn (x - ax) * min \<bar>x - ax\<bar> \<bar>y - ay\<bar>)
                  (sgn (y - ay) * min \<bar>x - ax\<bar> \<bar>y - ay\<bar>)]"
  using assms
  by (simp add: draw_def drawRectangle_def restoreLastState_def Let_def surface_def
      strokeRect_def beginPath_def set_lineWidth_def current_pen_def sgn_if)

theorem square_tool_dimensions_witness:
  "isDrawing ex_square_begun \<and> currentTool ex_square_begun = Square \<and>
   startPoint ex_square_begun = Some (0, 0) \<and>
   (\<exists>s'. step (MouseMove 30 (- 10)) ex_square_begun = Inr s' \<and>
      surface s' = blank @ [StrokedRect black5 0 0 10 (- 10)])"
proof -
  have h: "isDrawing ex_square_begun" "currentTool ex_square_begun = Square"
    "startPoint ex_square_begun = Some (0, 0)"
    by (simp_all add: ex_defs app_defs ctx_defs Let_def)
  have v: "surface ex_square_begun = blank" "color ex_square_begun = ''#000000''"
    "lineWidth ex_square_begun = 5"
    by (simp_all add: ex_defs app_defs ctx_defs Let_def)
  from square_tool_dimensions [OF h, of 30 "- 10"] show ?thesis
    using h by (simp add: v black5_def)
qed

text \<open>
  Claim C7. For every anchor and pointer position, a move of the circle tool strokes, and
  does not fill, a full circle around the anchor whose radius is the Euclidean distance
  between the anchor and the pointer.
\<close>

theorem circle_tool_radius:
  assumes "isDrawing s" and "currentTool s = Circle" and "startPoint s = Some (ax, ay)"
  shows "\<exists>s'. step (MouseMove x y) s = Inr s' \<and>
           surface s' =
             surface s @
               [Stroked
                  \<lparr>penColour = color s,
                   penWidth = (if 0 < lineWidth s then lineWidth s else ctxLineWidth (ctx s)),
                   penCap = Round\<rparr>
                  [Arc ax ay (dist (Complex ax ay) (Complex x y)) 0 (2 * pi)]]"
  using assms
  by (simp add: draw_def drawCircle_def restoreLastState_def Let_def surface_def
      stroke_def arc_def beginPath_def set_lineWidth_def current_pen_def dist_complex_def
      cmod_def power2_commute not_less)

theorem circle_tool_radius_witness:
  "isDrawing ex_circle_begun \<and> currentTool ex_circle_begun = Circle \<and>
   startPoint ex_circle_begun = Some (50, 50) \<and>
   dist (Complex 50 50) (Complex 53 54) = 5 \<and>
   (\<exists>s'. step (MouseMove 53 54) ex_circle_begun = Inr s' \<and>
      surface s' = blank @ [Stroked black5 [Arc 50 50 5 0 (2 * pi)]])"
proof -
  have h: "isDrawing ex_circle_begun" "currentTool ex_circle_begun = Circle"
    "startPoint ex_circle_begun = Some (50, 50)"
    by (simp_all add: ex_defs app_defs ctx_defs Let_def)
  have v: "surface ex_circle_begun = blank" "color ex_circle_begun = ''#000000''"
    "lineWidth ex_circle_begun = 5"
    by (simp_all add: ex_defs app_defs ctx_defs Let_def)
  have d: "dist (Complex 50 50) (Complex 53 54) = 5"
    by (simp add: dist_complex_def cmod_def)
  from circle_tool_radius [OF h, of 53 54] show ?thesis
    using h by (simp add: v d black5_def)
qed

text \<open>
  Every move of a shape tool queues the load of the committed snapshot and then strokes the
  shape on the canvas as it is at that moment; the canvas is replaced by the snapshot only
  when the load event arrives.
\<close>

lemma shape_move_strokes_before_restore:
  assumes "isDrawing s" and "currentTool s = Rectangle" and "startPoint s = Some (ax, ay)"
    and "history s \<noteq> []"
  shows "\<exists>s' p. step (MouseMove x y) s = Inr s' \<and>
           surface s' = surface s @ [StrokedRect p ax ay (x - ax) (y - ay)] \<and>
           loading s' = loading s @ [last (history s)] \<and>
           surface (imageLoad (length (loading s)) s') = last (history s)"
  using assms
  by (simp add: draw_def drawRectangle_def restoreLastState_def Let_def surface_def
      strokeRect_def beginPath_def set_lineWidth_def imageLoad_def onload_def drawImage_def
      clearRect_canvas_def)

text \<open>
  Claim C3 at a concrete rectangle gesture: pointer-down at \<open>(10, 10)\<close>, moves to \<open>(20, 20)\<close>
  and \<open>(40, 30)\<close>, release. When each load event arrives before the next pointer event, the
  one snapshot that the release commits is the white canvas, without any rectangle, and so
  is the canvas. When the load events arrive after the release, the committed snapshot holds
  both preview rectangles and the canvas ends white.
\<close>

theorem preview_wiped_by_late_restore:
  "run [ToolClick Rectangle, MouseDown 10 10, MouseMove 20 20, ImageLoad 0,
        MouseMove 40 30, ImageLoad 0, MouseUp] new_DrawingApp =
     Inr (new_DrawingApp\<lparr>currentTool := Rectangle, history := [blank, blank],
            ctx := (ctx new_DrawingApp)\<lparr>lineCap := Round, ctxLineWidth := 5\<rparr>\<rparr>) \<and>
   surface new_DrawingApp = blank \<and>
   (\<exists>s. run [ToolClick Rectangle, MouseDown 10 10, MouseMove 20 20, MouseMove 40 30, MouseUp,
        ImageLoad 0, ImageLoad 0] new_DrawingApp = Inr s \<and>
        history s =
          [blank, blank @ [StrokedRect black5 10 10 10 10, StrokedRect black5 10 10 30 20]] \<and>
        surface s = blank)"
  by (simp add: ex_defs app_defs ctx_defs Let_def)


section \<open>Gestures\<close>

text \<open>
  Claim C8, as the program has it. Pointer-down records the anchor and raises the flag, and
  for the pencil and the eraser starts a path at the anchor; it changes nothing else and
  records no tool. A move is dispatched on the tool selected when the move arrives. After a
  change to a shape tool in the middle of a gesture the move does what it does in a gesture
  begun with that tool: it strokes that tool's shape at the anchor in the selected colour.
  After a change to the pencil or the eraser it strokes the current path up to the pointer,
  in white for the eraser and in the selected colour for the pencil, and queues no load. In
  a run of events without a tool click the selected tool stays the one of the start.
\<close>

theorem tool_read_at_move:
  "startDrawing ax ay s =
     s\<lparr>isDrawing := True, startPoint := Some (ax, ay),
       ctx := (if currentTool s = Pencil \<or> currentTool s = Eraser
               then (ctx s)\<lparr>path := [MoveTo ax ay]\<rparr> else ctx s)\<rparr> \<and>
   isDrawing (startDrawing ax ay s) \<and>
   startPoint (startDrawing ax ay s) = Some (ax, ay) \<and>
   currentTool (startDrawing ax ay s) = currentTool s \<and>
   (t = Rectangle \<or> t = Square \<or> t = Circle \<longrightarrow>
      step (MouseMove x y) (setTool t (startDrawing ax ay s)) =
      step (MouseMove x y) (startDrawing ax ay (setTool t s))) \<and>
   (t = Rectangle \<longrightarrow>
      (\<exists>s'. step (MouseMove x y) (setTool t (startDrawing ax ay s)) = Inr s' \<and>
         surface s' =
           surface s @
             [StrokedRect
                \<lparr>penColour = color s,
                 penWidth = (if 0 < lineWidth s then lineWidth s else ctxLineWidth (ctx s)),
                 penCap = Round\<rparr>
                ax ay (x - ax) (y - ay)])) \<and>
   (t = Square \<longrightarrow>
      (\<exists>s'. step (MouseMove x y) (setTool t (startDrawing ax ay s)) = Inr s' \<and>
         surface s' =
           surface s @
             [StrokedRect
                \<lparr>penColour = color s,
                 penWidth = (if 0 < lineWidth s then lineWidth s else ctxLineWidth (ctx s)),
                 penCap = Round\<rparr>
                ax ay
                (sgn (x - ax) * min \<bar>x - ax\<bar> \<bar>y - ay\<bar>)
                (sgn (y - ay) * min \<bar>x - ax\<bar> \<bar>y - ay\<bar>)])) \<and>
   (t = Circle \<longrightarrow>
      (\<exists>s'. step (MouseMove x y) (setTool t (startDrawing ax ay s)) = Inr s' \<and>
         surface s' =
           surface s @
             [Stroked
                \<lparr>penColour = color s,
                 penWidth = (if 0 < lineWidth s then lineWidth s else ctxLineWidth (ctx s)),
                 penCap = Round\<rparr>
                [Arc ax ay (sqrt ((x - ax)\<^sup>2 + (y - ay)\<^sup>2)) 0 (2 * pi)]])) \<and>
   (t = Pencil \<or> t = Eraser \<longrightarrow>
      (\<exists>s'. step (MouseMove x y) (setTool t (startDrawing ax ay s)) = Inr s' \<and>
         loading s' = loading s \<and>
         surface s' =
           surface s @
             [Stroked
                \<lparr>penColour = (if t = Eraser then ''white'' else color s),
                 penWidth = (if 0 < lineWidth s then lineWidth s else ctxLineWidth (ctx s)),
                 penCap = Round\<rparr>
                (path (lineTo x y (ctx (startDrawing ax ay s))))])) \<and>
   ((\<forall>e \<in> set es. \<forall>t'. e \<noteq> ToolClick t') \<longrightarrow>
      (\<forall>s'. run es s = Inr s' \<longrightarrow> currentTool s' = currentTool s))"
proof (intro conjI impI allI)
  show "startDrawing ax ay s =
     s\<lparr>isDrawing := True, startPoint := Some (ax, ay),
       ctx := (if currentTool s = Pencil \<or> currentTool s = Eraser
               then (ctx s)\<lparr>path := [MoveTo ax ay]\<rparr> else ctx s)\<rparr>"
    by (simp add: startDrawing_def Let_def moveTo_def beginPath_def)
next
  show "isDrawing (startDrawing ax ay s)"
    by (simp add: startDrawing_def Let_def)
next
  show "startPoint (startDrawing ax ay s) = Some (ax, ay)"
    by (simp add: startDrawing_def Let_def)
next
  show "currentTool (startDrawing ax ay s) = currentTool s"
    by (simp add: startDrawing_def Let_def)
next
  assume "t = Rectangle \<or> t = Square \<or> t = Circle"
  then show "step (MouseMove x y) (setTool t (startDrawing ax ay s)) =
      step (MouseMove x y) (startDrawing ax ay (setTool t s))"
    by (auto simp: setTool_def startDrawing_def draw_def drawRectangle_def drawCircle_def
        restoreLastState_def Let_def ctx_defs not_less)
next
  assume "t = Rectangle"
  then show "\<exists>s'. step (MouseMove x y) (setTool t (startDrawing ax ay s)) = Inr s' \<and>
         surface s' =
           surface s @
             [StrokedRect
                \<lparr>penColour = color s,
                 penWidth = (if 0 < lineWidth s then lineWidth s else ctxLineWidth (ctx s)),
                 penCap = Round\<rparr>
                ax ay (x - ax) (y - ay)]"
    by (simp add: setTool_def startDrawing_def draw_def drawRectangle_def
        restoreLastState_def surface_def Let_def ctx_defs)
next
  assume "t = Square"
  then show "\<exists>s'. step (MouseMove x y) (setTool t (startDrawing ax ay s)) = Inr s' \<and>
         surface s' =
           surface s @
             [StrokedRect
                \<lparr>penColour = color s,
                 penWidth = (if 0 < lineWidth s then lineWidth s else ctxLineWidth (ctx s)),
                 penCap = Round\<rparr>
                ax ay
                (sgn (x - ax) * min \<bar>x - ax\<bar> \<bar>y - ay\<bar>)
                (sgn (y - ay) * min \<bar>x - ax\<bar> \<bar>y - ay\<bar>)]"
    by (simp add: setTool_def startDrawing_def draw_def drawRectangle_def
        restoreLastState_def surface_def Let_def ctx_defs sgn_if)
next
  assume "t = Circle"
  then show "\<exists>s'. step (MouseMove x y) (setTool t (startDrawing ax ay s)) = Inr s' \<and>
         surface s' =
           surface s @
             [Stroked
                \<lparr>penColour = color s,
                 penWidth = (if 0 < lineWidth s then lineWidth s else ctxLineWidth (ctx s)),
                 penCap = Round\<rparr>
                [Arc ax ay (sqrt ((x - ax)\<^sup>2 + (y - ay)\<^sup>2)) 0 (2 * pi)]]"
    using sum_power2_ge_zero [of "x - ax" "y - ay"]
    by (simp add: setTool_def startDrawing_def draw_def drawCircle_def
        restoreLastState_def surface_def Let_def ctx_defs flip: not_le)
next
  assume "t = Pencil \<or> t = Eraser"
  then show "\<exists>s'. step (MouseMove x y) (setTool t (startDrawing ax ay s)) = Inr s' \<and>
         loading s' = loading s \<and>
         surface s' =
           surface s @
             [Stroked
                \<lparr>penColour = (if t = Eraser then ''white'' else color s),
                 penWidth = (if 0 < lineWidth s then lineWidth s else ctxLineWidth (ctx s)),
                 penCap = Round\<rparr>
                (path (lineTo x y (ctx (startDrawing ax ay s))))]"
    by (auto simp: setTool_def startDrawing_def draw_def surface_def Let_def ctx_defs)
next
  fix s'
  assume "\<forall>e \<in> set es. \<forall>t'. e \<noteq> ToolClick t'" and "run es s = Inr s'"
  then show "currentTool s' = currentTool s"
  proof (induction es arbitrary: s)
    case Nil
    then show ?case by simp
  next
    case (Cons e es)
    from Cons.prems obtain s1 where s1: "step e s = Inr s1" "run es s1 = Inr s'"
      by (auto split: sum.splits)
    from Cons.prems(1) have nt: "\<forall>t'. e \<noteq> ToolClick t'" by simp
    have "currentTool s1 = currentTool s"
    proof (cases e)
      case (MouseMove x y)
      with s1(1) show ?thesis
        by (cases "currentTool s")
          (auto simp: draw_def drawRectangle_def drawCircle_def restoreLastState_def arc_def
            Let_def split: option.splits if_splits)
    qed (use s1(1) nt in \<open>auto simp: undo_def redo_def clearCanvas_def
      saveCanvasState_def downloadCanvas_def startDrawing_def stopDrawing_eq imageLoad_def
      onload_def Let_def split: if_splits\<close>)
    moreover from Cons.IH [OF _ s1(2)] Cons.prems(1) have "currentTool s' = currentTool s1"
      by simp
    ultimately show ?case by simp
  qed
qed

theorem tool_read_at_move_witness:
  "currentTool new_DrawingApp = Pencil \<and>
   isDrawing (startDrawing 0 0 new_DrawingApp) \<and>
   startPoint (startDrawing 0 0 new_DrawingApp) = Some (0, 0) \<and>
   (\<exists>s'. step (MouseMove 10 10) (setTool Rectangle (startDrawing 0 0 new_DrawingApp)) = Inr s' \<and>
      surface s' = blank @ [StrokedRect black5 0 0 10 10]) \<and>
   (\<exists>s'. step (MouseMove 10 10) (setTool Eraser (startDrawing 0 0 new_DrawingApp)) = Inr s' \<and>
      surface s' =
        blank @
          [Stroked \<lparr>penColour = ''white'', penWidth = 5, penCap = Round\<rparr>
             [MoveTo 0 0, LineTo 10 10]]) \<and>
   run ex_stroke new_DrawingApp = Inr ex_drawn \<and>
   currentTool ex_drawn = currentTool new_DrawingApp"
proof -
  have r: "run ex_stroke new_DrawingApp = Inr ex_drawn"
    by (simp add: ex_defs app_defs ctx_defs Let_def)
  have n: "\<forall>e \<in> set ex_stroke. \<forall>t'. e \<noteq> ToolClick t'"
    by (simp add: ex_defs)
  have p: "path (lineTo 10 10 (ctx (startDrawing 0 0 new_DrawingApp))) = [MoveTo 0 0, LineTo 10 10]"
    "surface new_DrawingApp = blank" "color new_DrawingApp = ''#000000''"
    "lineWidth new_DrawingApp = 5" "currentTool new_DrawingApp = Pencil"
    by (simp_all add: app_defs ctx_defs Let_def)
  note rect = tool_read_at_move [of 0 0 new_DrawingApp Rectangle 10 10 ex_stroke]
  note eras = tool_read_at_move [of 0 0 new_DrawingApp Eraser 10 10 ex_stroke]
  from rect have "\<exists>s'. step (MouseMove 10 10)
        (setTool Rectangle (startDrawing 0 0 new_DrawingApp)) = Inr s' \<and>
      surface s' =
        surface new_DrawingApp @
          [StrokedRect
             \<lparr>penColour = color new_DrawingApp,
              penWidth = (if 0 < lineWidth new_DrawingApp then lineWidth new_DrawingApp
                          else ctxLineWidth (ctx new_DrawingApp)),
              penCap = Round\<rparr>
             0 0 (10 - 0) (10 - 0)]"
    by blast
  then have a: "\<exists>s'. step (MouseMove 10 10)
        (setTool Rectangle (startDrawing 0 0 new_DrawingApp)) = Inr s' \<and>
      surface s' = blank @ [StrokedRect black5 0 0 10 10]"
    by (simp add: p black5_def)
  from eras have "\<exists>s'. step (MouseMove 10 10)
        (setTool Eraser (startDrawing 0 0 new_DrawingApp)) = Inr s' \<and>
      loading s' = loading new_DrawingApp \<and>
      surface s' =
        surface new_DrawingApp @
          [Stroked
             \<lparr>penColour = (if Eraser = Eraser then ''white'' else color new_DrawingApp),
              penWidth = (if 0 < lineWidth new_DrawingApp then lineWidth new_DrawingApp
                          else ctxLineWidth (ctx new_DrawingApp)),
              penCap = Round\<rparr>
             (path (lineTo 10 10 (ctx (startDrawing 0 0 new_DrawingApp))))]"
    by blast
  then have b: "\<exists>s'. step (MouseMove 10 10)
        (setTool Eraser (startDrawing 0 0 new_DrawingApp)) = Inr s' \<and>
      surface s' =
        blank @
          [Stroked \<lparr>penColour = ''white'', penWidth = 5, penCap = Round\<rparr>
             [MoveTo 0 0, LineTo 10 10]]"
    by (auto simp: p)
  from rect n r have c: "currentTool ex_drawn = currentTool new_DrawingApp"
    by blast
  from rect have d: "isDrawing (startDrawing 0 0 new_DrawingApp)"
    "startPoint (startDrawing 0 0 new_DrawingApp) = Some (0, 0)"
    by blast+
  from a b c d r p(5) show ?thesis by simp
qed

text \<open>
  The claim as it is written fails when the tool is changed within a gesture. A gesture
  begun with the pencil paints a line on its first move; when the rectangle tool is selected
  between pointer-down and that move, the move paints a rectangle.
\<close>

theorem move_follows_tool_switch:
  "currentTool new_DrawingApp = Pencil \<and>
   surface (projr (run [MouseDown 0 0, MouseMove 10 10] new_DrawingApp)) =
     blank @ [Stroked black5 [MoveTo 0 0, LineTo 10 10]] \<and>
   surface (projr (run [MouseDown 0 0, ToolClick Rectangle, MouseMove 10 10] new_DrawingApp)) =
     blank @ [StrokedRect black5 0 0 10 10]"
  by (simp add: ex_defs app_defs ctx_defs Let_def)

text \<open>
  Claim C9. A pointer-move while no gesture is open, and a pointer-up or pointer-leave
  while no gesture is open, return the state as it is, with no exception: canvas, gesture
  state, \<open>history\<close> and \<open>redoStack\<close> are unchanged.
\<close>

theorem idle_pointer_noop:
  "\<not> isDrawing s \<Longrightarrow>
     step (MouseMove x y) s = Inr s \<and> step MouseUp s = Inr s \<and> step MouseOut s = Inr s"
  by (simp add: draw_def stopDrawing_def)

theorem idle_pointer_noop_witness:
  "\<not> isDrawing ex_drawn \<and> startPoint ex_drawn = None \<and>
   step (MouseMove 3 4) ex_drawn = Inr ex_drawn \<and>
   step MouseUp ex_drawn = Inr ex_drawn \<and> step MouseOut ex_drawn = Inr ex_drawn"
proof -
  have i: "\<not> isDrawing ex_drawn" "startPoint ex_drawn = None"
    by (simp_all add: ex_defs app_defs ctx_defs Let_def)
  from idle_pointer_noop [OF i(1), of 3 4] i show ?thesis by simp
qed

text \<open>
  Claim C10. No session raises an exception, and in every state a session reaches an open
  gesture has its anchor: while \<open>isDrawing\<close> holds, \<open>startPoint\<close> is not \<open>null\<close>, and every
  pointer-move, whichever tool is selected, is handled without a \<open>TypeError\<close>.
\<close>

theorem anchor_never_null:
  "\<exists>s. run es new_DrawingApp = Inr s \<and>
       (isDrawing s \<longrightarrow>
          startPoint s \<noteq> None \<and>
          (\<forall>x y. \<exists>s'. step (MouseMove x y) s = Inr s'))"
proof -
  from run_anchored [OF new_anchored, of es] obtain s where
    s: "run es new_DrawingApp = Inr s" "anchored s" by blast
  from step_anchored [OF s(2)] have "\<exists>s'. step (MouseMove x y) s = Inr s'" for x y
    by blast
  with s show ?thesis by (auto simp: anchored_def)
qed

theorem anchor_never_null_witness:
  "run [ToolClick Circle, MouseDown 50 50] new_DrawingApp = Inr ex_circle_begun \<and>
   isDrawing ex_circle_begun \<and> startPoint ex_circle_begun = Some (50, 50) \<and>
   (\<exists>s'. step (MouseMove 53 54) ex_circle_begun = Inr s')"
proof -
  have r: "run [ToolClick Circle, MouseDown 50 50] new_DrawingApp = Inr ex_circle_begun"
    "isDrawing ex_circle_begun" "startPoint ex_circle_begun = Some (50, 50)"
    by (simp_all add: ex_defs app_defs ctx_defs Let_def)
  from anchor_never_null [of "[ToolClick Circle, MouseDown 50 50]"] r show ?thesis
    by auto
qed

end
